theory Spec2Isabelle
  imports Complex_Main "HOL-Library.Multiset" "HOL-Library.Char_ord" "HOL-Library.List_Lexorder"
begin

section \<open>Shared Python primitives\<close>

text \<open>
  Exceptions that the modelled code can raise or catch. Each carries the text that
  \<^verbatim>\<open>str(e)\<close> would give.
\<close>

datatype py_error =
    ValueError string
  | AttributeError string
  | OSError string
  | CsvError string
  | ZeroDivisionError string
  | OverflowError string
  | UnicodeEncodeError string

text \<open>
  \<^verbatim>\<open>str(n)\<close> for a Python int, as the f-string \<^verbatim>\<open>f'HTTP {e.code}: ...'\<close> renders it.
\<close>

definition digit_char :: "nat \<Rightarrow> char" where
  "digit_char d = ''0123456789'' ! d"

function str_nat :: "nat \<Rightarrow> string" where
  "str_nat n = (if n < 10 then [digit_char n] else str_nat (n div 10) @ [digit_char (n mod 10)])"
  by pat_completeness auto
termination
  by (relation "measure (\<lambda>n. n)") auto

declare str_nat.simps [simp del]

definition str_int :: "int \<Rightarrow> string" where
  "str_int i = (if i < 0 then CHR ''-'' # str_nat (nat (- i)) else str_nat (nat i))"

section \<open>The check worker: \<^verbatim>\<open>check_ip_proxycheck\<close> (proxycheck.py)\<close>

text \<open>
  What one pass through the \<^verbatim>\<open>try\<close> block gives: the decoded JSON payload, an
  \<^verbatim>\<open>urllib.error.HTTPError\<close> with its code and reason, or any other
  \<^verbatim>\<open>Exception\<close> (timeout, connection failure, undecodable body) with its text.
  The payload is opaque to the program, hence a type parameter.
\<close>

datatype 'p response =
    Ok 'p
  | HTTPError int string
  | OtherError string

text \<open>
  The dictionary the worker returns. The keys \<^verbatim>\<open>'data'\<close> and \<^verbatim>\<open>'error'\<close> are each
  present in only one of the two dictionary literals of the source, so each is an option:
  \<open>None\<close> is an absent key. A payload that is JSON \<^verbatim>\<open>null\<close> is still a present key.
\<close>

record 'p outcome =
  success :: bool
  ip :: string
  data :: "'p option"
  error :: "string option"
  timestamp :: real
  checked_at :: string

type_synonym clock = "nat \<Rightarrow> real \<times> string"

definition success_outcome :: "string \<Rightarrow> 'p \<Rightarrow> real \<times> string \<Rightarrow> 'p outcome" where
  "success_outcome ip_address d now =
     \<lparr>success = True, ip = ip_address, data = Some d, error = None,
      timestamp = fst now, checked_at = snd now\<rparr>"

definition failure_outcome :: "string \<Rightarrow> string \<Rightarrow> real \<times> string \<Rightarrow> 'p outcome" where
  "failure_outcome ip_address msg now =
     \<lparr>success = False, ip = ip_address, data = None, error = Some msg,
      timestamp = fst now, checked_at = snd now\<rparr>"

text \<open>
  What the worker does towards the outside, in order: \<open>Request i\<close> is the call of
  \<^verbatim>\<open>opener.open\<close> in iteration \<open>i\<close> of the loop, \<open>Sleep d\<close> a call of
  \<^verbatim>\<open>time.sleep(d)\<close>, whether it returns or raises.
\<close>

datatype call = Request nat | Sleep int

fun requests_of :: "call list \<Rightarrow> nat list" where
  "requests_of [] = []"
| "requests_of (Request i # cs) = i # requests_of cs"
| "requests_of (Sleep d # cs) = requests_of cs"

fun sleeps_of :: "call list \<Rightarrow> int list" where
  "sleeps_of [] = []"
| "sleeps_of (Request i # cs) = sleeps_of cs"
| "sleeps_of (Sleep d # cs) = d # sleeps_of cs"

text \<open>
  What a call of the worker gives: an exception that leaves it, or its return value
  (\<open>None\<close> is Python's \<^verbatim>\<open>None\<close>), together with the calls it made.
\<close>

type_synonym 'p worker_result = "(py_error + 'p outcome option) \<times> call list"

text \<open>
  \<^verbatim>\<open>time.sleep(d)\<close> followed by the rest of the loop. \<open>slept\<close> is what the call
  does: it returns (\<open>None\<close>) or raises. The call sits in an \<^verbatim>\<open>except\<close> clause, so an
  exception it raises leaves the function.
\<close>

definition sleep_then :: "py_error option \<Rightarrow> int \<Rightarrow> 'p worker_result \<Rightarrow> 'p worker_result" where
  "sleep_then slept d rest =
     (case slept of
        Some err \<Rightarrow> (Inl err, [Sleep d])
      | None \<Rightarrow> (fst rest, Sleep d # snd rest))"

definition request_then :: "nat \<Rightarrow> 'p worker_result \<Rightarrow> 'p worker_result" where
  "request_then attempt rest = (fst rest, Request attempt # snd rest)"

text \<open>
  The loop \<^verbatim>\<open>for attempt in range(max_retries)\<close>, from the iteration \<open>attempt\<close> on.
  \<open>call attempt\<close> is what the network gives at that iteration, \<open>clk attempt\<close> the
  clock reading when its dictionary is built, and \<open>slp attempt d\<close> what
  \<^verbatim>\<open>time.sleep(d)\<close> does when called in that iteration. Which durations
  \<^verbatim>\<open>time.sleep\<close> accepts depends on the platform and its clock, so its behaviour is a
  parameter. The delay is an integer, as the default \<^verbatim>\<open>retry_delay=2\<close> is. The lines
  printed along the way are left out.
\<close>

function retry_loop ::
  "string \<Rightarrow> int \<Rightarrow> int \<Rightarrow> (nat \<Rightarrow> int \<Rightarrow> py_error option) \<Rightarrow> (nat \<Rightarrow> 'p response) \<Rightarrow> clock \<Rightarrow>
     nat \<Rightarrow> 'p worker_result" where
  "retry_loop ip_address max_retries retry_delay slp call clk attempt =
     (if int attempt < max_retries then
        request_then attempt
          (case call attempt of
             Ok d \<Rightarrow> (Inr (Some (success_outcome ip_address d (clk attempt))), [])
           | HTTPError code reason \<Rightarrow>
               (if code = 429 \<and> int attempt < max_retries - 1 then
                  sleep_then (slp attempt (retry_delay * 2 ^ attempt)) (retry_delay * 2 ^ attempt)
                    (retry_loop ip_address max_retries retry_delay slp call clk (Suc attempt))
                else if int attempt < max_retries - 1 then
                  sleep_then (slp attempt retry_delay) retry_delay
                    (retry_loop ip_address max_retries retry_delay slp call clk (Suc attempt))
                else
                  (Inr (Some (failure_outcome ip_address
                     (''HTTP '' @ str_int code @ '': '' @ reason) (clk attempt))), []))
           | OtherError msg \<Rightarrow>
               (if int attempt < max_retries - 1 then
                  sleep_then (slp attempt retry_delay) retry_delay
                    (retry_loop ip_address max_retries retry_delay slp call clk (Suc attempt))
                else
                  (Inr (Some (failure_outcome ip_address msg (clk attempt))), [])))
      else (Inr None, []))"
  by pat_completeness auto
termination
  by (relation "measure (\<lambda>(i, m, r, s, c, k, a). nat (m - int a))") auto

declare retry_loop.simps [simp del]

definition request_url :: "string \<Rightarrow> string \<Rightarrow> string" where
  "request_url api_key ip_address =
     (if api_key \<noteq> [] then ''https://proxycheck.io/v3/'' @ ip_address @ ''?key='' @ api_key
      else ''https://proxycheck.io/v3/'' @ ip_address)"

text \<open>
  The whole function. \<open>built\<close> is what the statements before the loop give, which
  build the opener and its SSL context outside every \<^verbatim>\<open>try\<close>: \<open>None\<close> when they
  succeed, the exception when one raises, which then leaves the function before any
  request. \<open>net url attempt\<close> is the network's answer to the request of that iteration.
\<close>

definition check_ip_proxycheck ::
  "string \<Rightarrow> py_error option \<Rightarrow> (nat \<Rightarrow> int \<Rightarrow> py_error option) \<Rightarrow> (string \<Rightarrow> nat \<Rightarrow> 'p response) \<Rightarrow>
     clock \<Rightarrow> string \<Rightarrow> int \<Rightarrow> int \<Rightarrow> 'p worker_result" where
  "check_ip_proxycheck api_key built slp net clk ip_address max_retries retry_delay =
     (case built of
        Some err \<Rightarrow> (Inl err, [])
      | None \<Rightarrow>
          retry_loop ip_address max_retries retry_delay slp
            (net (request_url api_key ip_address)) clk 0)"

text \<open>
  The two refusals of \<^verbatim>\<open>time.sleep\<close> that do not depend on the platform:
  \<^verbatim>\<open>ValueError\<close> for a negative duration and \<^verbatim>\<open>OverflowError\<close> for a number of
  seconds whose nanoseconds do not fit 64 bits. This behaviour accepts every other
  duration; an operating system may refuse some of those as well.
\<close>

definition time_sleep :: "int \<Rightarrow> py_error option" where
  "time_sleep d =
     (if d < 0 then Some (ValueError ''sleep length must be non-negative'')
      else if 9223372036 < d then
        Some (OverflowError ''timestamp too large to convert to C _PyTime_t'')
      else None)"

section \<open>The target provider: \<^verbatim>\<open>load_ips_from_csv\<close> (proxycheck.py)\<close>

text \<open>
  A string is a list of 8-bit characters, read as the code points below 256; text with
  other code points is outside this model. \<^verbatim>\<open>str.strip()\<close> removes from both ends the
  characters for which \<^verbatim>\<open>str.isspace\<close> holds: below 256 these are 9 to 13, 28 to 32,
  133 and 160.
\<close>

definition is_space :: "char \<Rightarrow> bool" where
  "is_space c =
     (let n = (of_char c :: nat)
      in (9 \<le> n \<and> n \<le> 13) \<or> (28 \<le> n \<and> n \<le> 32) \<or> n = 133 \<or> n = 160)"

definition strip :: "string \<Rightarrow> string" where
  "strip s = rev (dropWhile is_space (rev (dropWhile is_space s)))"

definition strip_chars :: "char \<Rightarrow> string \<Rightarrow> string" where
  "strip_chars q s = rev (dropWhile (\<lambda>c. c = q) (rev (dropWhile (\<lambda>c. c = q) s)))"

text \<open>\<^verbatim>\<open>s.split(sep)\<close> for a one-character separator: never an empty list.\<close>

fun split_on :: "char \<Rightarrow> string \<Rightarrow> string list" where
  "split_on sep [] = [[]]"
| "split_on sep (c # cs) =
     (if c = sep then [] # split_on sep cs
      else (case split_on sep cs of [] \<Rightarrow> [[c]] | p # ps \<Rightarrow> (c # p) # ps))"

text \<open>
  \<^verbatim>\<open>int(p)\<close> on a string, base 10: surrounding white space, one optional sign, then
  digits with single underscores allowed between them. \<open>None\<close> is \<^verbatim>\<open>ValueError\<close>.
  The white space of \<^verbatim>\<open>int\<close> is narrower than that of \<^verbatim>\<open>strip\<close>: below 256 it is
  9 to 13, 32, 133 and 160, without the separators 28 to 31. Below 256 the decimal
  digits are the ASCII digits. A literal of more than 4300 digits is refused (the
  default limit of the interpreter).
\<close>

definition is_int_space :: "char \<Rightarrow> bool" where
  "is_int_space c =
     (let n = (of_char c :: nat) in (9 \<le> n \<and> n \<le> 13) \<or> n = 32 \<or> n = 133 \<or> n = 160)"

definition int_strip :: "string \<Rightarrow> string" where
  "int_strip s = rev (dropWhile is_int_space (rev (dropWhile is_int_space s)))"

definition max_str_digits :: nat where
  "max_str_digits = 4300"

definition is_digit :: "char \<Rightarrow> bool" where
  "is_digit c = (let n = (of_char c :: nat) in 48 \<le> n \<and> n \<le> 57)"

definition digit_val :: "char \<Rightarrow> nat" where
  "digit_val c = of_char c - 48"

fun parse_digits :: "nat \<Rightarrow> bool \<Rightarrow> string \<Rightarrow> nat option" where
  "parse_digits acc after_digit [] = (if after_digit then Some acc else None)"
| "parse_digits acc after_digit (c # cs) =
     (if is_digit c then parse_digits (acc * 10 + digit_val c) True cs
      else if c = CHR ''_'' \<and> after_digit then parse_digits acc False cs
      else None)"

definition py_int :: "string \<Rightarrow> int option" where
  "py_int s =
     (let t = int_strip s in
        if max_str_digits < length (filter is_digit t) then None
        else
          (case t of
             [] \<Rightarrow> None
           | c # cs \<Rightarrow>
               if c = CHR ''-'' then map_option (\<lambda>n. - int n) (parse_digits 0 False cs)
               else if c = CHR ''+'' then map_option int (parse_digits 0 False cs)
               else map_option int (parse_digits 0 False (c # cs))))"

text \<open>
  \<^verbatim>\<open>all(0 <= int(p) <= 255 for p in parts)\<close>: the generator stops at the first
  segment out of range, and a segment that does not parse raises \<^verbatim>\<open>ValueError\<close>.
\<close>

fun all_in_range :: "string list \<Rightarrow> py_error + bool" where
  "all_in_range [] = Inr True"
| "all_in_range (p # ps) =
     (case py_int p of
        None \<Rightarrow> Inl (ValueError ''invalid literal for int()'')
      | Some n \<Rightarrow> if 0 \<le> n \<and> n \<le> 255 then all_in_range ps else Inr False)"

text \<open>
  A row of \<^verbatim>\<open>csv.DictReader\<close>: a dictionary from column names to fields, where a
  column missing from a short row holds Python's \<^verbatim>\<open>None\<close> (the inner \<open>None\<close>).
\<close>

type_synonym row = "string \<rightharpoonup> string option"

text \<open>
  \<^verbatim>\<open>row.get('Ip', '').strip().strip('"')\<close>. On Python's \<^verbatim>\<open>None\<close> the call of
  \<^verbatim>\<open>strip\<close> raises \<^verbatim>\<open>AttributeError\<close>.
\<close>

definition row_ip :: "row \<Rightarrow> py_error + string" where
  "row_ip r =
     (case r ''Ip'' of
        None \<Rightarrow> Inr (strip_chars CHR 0x22 (strip []))
      | Some None \<Rightarrow> Inl (AttributeError ''NoneType object has no attribute strip'')
      | Some (Some v) \<Rightarrow> Inr (strip_chars CHR 0x22 (strip v)))"

text \<open>The body of the loop over the rows, after the column is read.\<close>

definition add_ip :: "string \<Rightarrow> string set \<Rightarrow> string set" where
  "add_ip ip_text ips =
     (if ip_text \<noteq> [] \<and> CHR ''.'' \<in> set ip_text then
        (let parts = split_on CHR ''.'' ip_text in
           if length parts = 4 then
             (case all_in_range parts of
                Inr True \<Rightarrow> insert ip_text ips
              | Inr False \<Rightarrow> ips
              | Inl e \<Rightarrow> ips)
           else ips)
      else ips)"

fun collect_ips :: "row list \<Rightarrow> string set \<Rightarrow> py_error + string set" where
  "collect_ips [] ips = Inr ips"
| "collect_ips (r # rs) ips =
     (case row_ip r of Inl e \<Rightarrow> Inl e | Inr ip_text \<Rightarrow> collect_ips rs (add_ip ip_text ips))"

definition skip_sep :: "string list \<Rightarrow> string list" where
  "skip_sep lines =
     (case lines of
        [] \<Rightarrow> []
      | l # ls \<Rightarrow> if take 4 (strip l) = ''sep='' then ls else lines)"

text \<open>
  \<open>fs_read filename\<close> is what \<^verbatim>\<open>open(...)\<close> and \<^verbatim>\<open>readlines()\<close> give (the lines, or
  the exception raised), and \<open>dict_reader lines\<close> the rows that
  \<^verbatim>\<open>csv.DictReader(lines, delimiter='\t')\<close> yields, or the exception it raises on the
  way. Both belong to the Python library and are parameters here. Every exception ends
  in the outer \<^verbatim>\<open>except\<close> clause, which returns the empty list.
\<close>

definition load_ips_from_csv ::
  "(string \<Rightarrow> py_error + string list) \<Rightarrow> (string list \<Rightarrow> py_error + row list) \<Rightarrow> string \<Rightarrow> string list" where
  "load_ips_from_csv fs_read dict_reader filename =
     (case fs_read filename of
        Inl e \<Rightarrow> []
      | Inr lines \<Rightarrow>
          (case dict_reader (skip_sep lines) of
             Inl e \<Rightarrow> []
           | Inr rows \<Rightarrow>
               (case collect_ips rows {} of
                  Inl e \<Rightarrow> []
                | Inr ips \<Rightarrow> sorted_list_of_set ips)))"

text \<open>
  What the filter of the loop lets through: four segments between dots, each accepted by
  \<^verbatim>\<open>int\<close> with a value from 0 to 255.
\<close>

definition in_byte_range :: "string \<Rightarrow> bool" where
  "in_byte_range p = (case py_int p of None \<Rightarrow> False | Some n \<Rightarrow> 0 \<le> n \<and> n \<le> 255)"

definition int_quad :: "string \<Rightarrow> bool" where
  "int_quad s = (length (split_on CHR ''.'' s) = 4 \<and> list_all in_byte_range (split_on CHR ''.'' s))"

text \<open>
  The glossary's dotted-quad, in the spec's words: an IPv4 literal of the form
  \<^verbatim>\<open>a.b.c.d\<close>, each segment an integer from 0 to 255, written as a decimal numeral.
\<close>

definition ipv4_literal :: "string \<Rightarrow> bool" where
  "ipv4_literal s =
     (\<exists>a b c d. a < 256 \<and> b < 256 \<and> c < 256 \<and> d < 256 \<and>
        s = str_nat a @ ''.'' @ str_nat b @ ''.'' @ str_nat c @ ''.'' @ str_nat d)"

section \<open>The run: \<^verbatim>\<open>main\<close> (proxycheck.py)\<close>

record run_metadata =
  source_file :: string
  total_ips :: nat
  successful :: nat
  failed :: nat
  generated_at :: string
  api_key_used :: bool

record 'p output_data =
  metadata :: run_metadata
  out_results :: "string \<rightharpoonup> 'p outcome"

text \<open>
  Everything \<^verbatim>\<open>main\<close> reads from outside: the configuration read from the
  environment variables, the file system, the optional progress-bar package, the network,
  the clocks and the scheduling of the workers.
  \<^item> \<open>opener k\<close>, \<open>sleeper k\<close>, \<open>net\<close> and \<open>wall k\<close> are what the worker of the
    target \<open>k\<close> meets: the building of its opener, its calls of \<^verbatim>\<open>time.sleep\<close>, the
    network and its clock.
  \<^item> \<open>delay_sleep i\<close> is what \<^verbatim>\<open>time.sleep(DELAY)\<close> does after the submission
    number \<open>i\<close>: it returns, or raises for a delay the library refuses.
  \<^item> \<open>schedule\<close> fixes the order in which the workers finish.
  \<^item> \<open>total_time\<close> is the elapsed time of the run, by which the printed summary
    divides.
  \<^item> \<open>dump_json f d\<close> is what opening the output file \<open>f\<close> and \<^verbatim>\<open>json.dump\<close> of
    \<open>d\<close> give: \<open>None\<close> when the file is written, the exception otherwise (a file
    that cannot be opened, a payload that cannot be encoded).
\<close>

record 'p env =
  api_key :: string
  max_workers :: int
  fs_read :: "string \<Rightarrow> py_error + string list"
  dict_reader :: "string list \<Rightarrow> py_error + row list"
  tqdm_available :: bool
  opener :: "string \<Rightarrow> py_error option"
  sleeper :: "string \<Rightarrow> nat \<Rightarrow> int \<Rightarrow> py_error option"
  net :: "string \<Rightarrow> nat \<Rightarrow> 'p response"
  wall :: "string \<Rightarrow> clock"
  delay_sleep :: "nat \<Rightarrow> py_error option"
  schedule :: "nat list"
  total_time :: real
  now_iso :: string
  dump_json :: "string \<Rightarrow> 'p output_data \<Rightarrow> py_error option"

text \<open>
  What the run shows and stores, in order. \<open>Store k\<close> records one execution of the
  assignment \<^verbatim>\<open>results[ip] = result\<close>; the other events are the calls of the progress
  bar and the printed lines.
\<close>

datatype event =
    Store string
  | Bar_postfix nat nat string
  | Bar_error nat nat string
  | Bar_update
  | Status_line bool string nat nat
  | Error_line string string

text \<open>The module-level variables \<^verbatim>\<open>results\<close>, \<^verbatim>\<open>processed_count\<close>, \<^verbatim>\<open>error_count\<close>.\<close>

record 'p run_state =
  results :: "string \<rightharpoonup> 'p outcome"
  processed_count :: nat
  error_count :: nat
  events :: "event list"

definition initial_state :: "'p run_state" where
  "initial_state = \<lparr>results = Map.empty, processed_count = 0, error_count = 0, events = []\<rparr>"

definition error_text :: "py_error \<Rightarrow> string" where
  "error_text e =
     (case e of ValueError m \<Rightarrow> m | AttributeError m \<Rightarrow> m | OSError m \<Rightarrow> m | CsvError m \<Rightarrow> m
      | ZeroDivisionError m \<Rightarrow> m | OverflowError m \<Rightarrow> m | UnicodeEncodeError m \<Rightarrow> m)"

text \<open>
  The submission loop: \<^verbatim>\<open>future = executor.submit(check_ip_proxycheck, ip)\<close>,
  \<^verbatim>\<open>futures[future] = ip\<close>, \<^verbatim>\<open>time.sleep(DELAY)\<close>. Every call of
  \<^verbatim>\<open>submit\<close> gives a new future, here the number of the submission; \<open>futures\<close> is
  the dictionary, in the order of insertion. An exception of \<^verbatim>\<open>time.sleep\<close> leaves
  the loop.
\<close>

fun submit_all ::
  "(nat \<Rightarrow> py_error option) \<Rightarrow> (nat \<times> string) list \<Rightarrow> string list \<Rightarrow> py_error + (nat \<times> string) list" where
  "submit_all dsleep futures [] = Inr futures"
| "submit_all dsleep futures (k # ks) =
     (let future = length futures; futures' = futures @ [(future, k)]
      in case dsleep future of
           Some err \<Rightarrow> Inl err
         | None \<Rightarrow> submit_all dsleep futures' ks)"

text \<open>
  \<^verbatim>\<open>as_completed(futures)\<close> hands back every future of the dictionary once, in the
  order in which the workers finish. The schedule stands for that order: each of its
  numbers picks one of the futures not handed back yet, and when it runs out the rest
  follow in the order of submission.
\<close>

fun completion_order :: "nat list \<Rightarrow> 'a list \<Rightarrow> 'a list" where
  "completion_order sched [] = []"
| "completion_order [] (x # xs) = x # xs"
| "completion_order (s # sched) (x # xs) =
     (let i = s mod length (x # xs)
      in (x # xs) ! i # completion_order sched (take i (x # xs) @ drop (Suc i) (x # xs)))"

text \<open>
  One iteration of \<^verbatim>\<open>for future in as_completed(futures)\<close>, for the future of the
  target \<open>k\<close> (\<^verbatim>\<open>ip = futures[future]\<close>). \<open>returned\<close> is what
  \<^verbatim>\<open>future.result()\<close> gives: the exception of the worker raised again, or its return
  value. A returned dictionary is never empty, so the test \<^verbatim>\<open>if result:\<close> fails on
  \<^verbatim>\<open>None\<close> only. The calls of the progress bar and of \<^verbatim>\<open>print\<close> are taken to
  return normally.
\<close>

definition collect_step ::
  "bool \<Rightarrow> (string \<Rightarrow> py_error + 'p outcome option) \<Rightarrow> 'p run_state \<Rightarrow> string \<Rightarrow> 'p run_state" where
  "collect_step use_tqdm returned st k =
     (case returned k of
        Inr None \<Rightarrow> st
      | Inr (Some r) \<Rightarrow>
          (let st1 = st\<lparr>results := (results st)(k \<mapsto> r), events := events st @ [Store k]\<rparr>;
               st2 = (if success r then st1\<lparr>processed_count := processed_count st1 + 1\<rparr>
                      else st1\<lparr>error_count := error_count st1 + 1\<rparr>)
           in st2\<lparr>events := events st2 @
                (if use_tqdm then
                   [Bar_postfix (processed_count st2) (error_count st2) (take 15 k), Bar_update]
                 else [Status_line (success r) k (processed_count st2) (error_count st2)])\<rparr>)
      | Inl e \<Rightarrow>
          (let st1 = st\<lparr>error_count := error_count st + 1\<rparr>
           in st1\<lparr>events := events st1 @
                (if use_tqdm then
                   [Bar_error (processed_count st1) (error_count st1) (take 20 (error_text e)),
                    Bar_update]
                 else [Error_line k (error_text e)])\<rparr>))"

text \<open>
  \<^verbatim>\<open>executor.submit(check_ip_proxycheck, ip)\<close>: the worker runs with its default
  arguments \<^verbatim>\<open>max_retries=3\<close> and \<^verbatim>\<open>retry_delay=2\<close>. The targets of a run are
  distinct, so the target names the future.
\<close>

definition submitted :: "'p env \<Rightarrow> string \<Rightarrow> 'p worker_result" where
  "submitted e k =
     check_ip_proxycheck (api_key e) (opener e k) (sleeper e k) (net e) (wall e k) k 3 2"

text \<open>Whether \<^verbatim>\<open>future.result()\<close> raises.\<close>

definition raised :: "py_error + 'a \<Rightarrow> bool" where
  "raised x = (case x of Inl err \<Rightarrow> True | Inr v \<Rightarrow> False)"

text \<open>
  How the process ends: its exit code, the exception that ended it if one did, whether
  \<^verbatim>\<open>save_json\<close> was called (it opens the output file for writing, so a call that
  raises may leave a partial file), the file that \<^verbatim>\<open>save_json\<close> wrote if it
  returned, and the module-level variables at that moment.
\<close>

record 'p run_result =
  exit_code :: int
  uncaught :: "py_error option"
  save_called :: bool
  written :: "(string \<times> 'p output_data) option"
  final :: "'p run_state"

definition exit_with :: "int \<Rightarrow> 'p run_result" where
  "exit_with c =
     \<lparr>exit_code = c, uncaught = None, save_called = False, written = None,
      final = initial_state\<rparr>"

definition crash :: "py_error \<Rightarrow> bool \<Rightarrow> 'p run_state \<Rightarrow> 'p run_result" where
  "crash e saving st =
     \<lparr>exit_code = 1, uncaught = Some e, save_called = saving, written = None, final = st\<rparr>"

definition targets :: "'p env \<Rightarrow> string list \<Rightarrow> string list" where
  "targets e argv = load_ips_from_csv (fs_read e) (dict_reader e) (argv ! 1)"

definition output_file :: "string list \<Rightarrow> string" where
  "output_file argv = (if length argv > 2 then argv ! 2 else ''proxycheck_results.json'')"

text \<open>The collecting loop over the futures, in the order of their completion.\<close>

definition collect :: "'p env \<Rightarrow> (nat \<times> string) list \<Rightarrow> 'p run_state" where
  "collect e futures =
     foldl (collect_step (tqdm_available e) (\<lambda>k. fst (submitted e k))) initial_state
       (map snd (completion_order (schedule e) futures))"

definition build_output :: "'p env \<Rightarrow> string list \<Rightarrow> string list \<Rightarrow> 'p run_state \<Rightarrow> 'p output_data" where
  "build_output e argv ips st =
     \<lparr>metadata =
        \<lparr>source_file = argv ! 1, total_ips = length ips, successful = processed_count st,
         failed = error_count st, generated_at = now_iso e, api_key_used = (api_key e \<noteq> [])\<rparr>,
      out_results = results st\<rparr>"

text \<open>
  \<^verbatim>\<open>main\<close>, with \<open>argv\<close> for \<^verbatim>\<open>sys.argv\<close>. \<^verbatim>\<open>sys.exit(1)\<close> ends the
  process with code 1, a return from \<^verbatim>\<open>main\<close> with code 0, an uncaught exception
  with code 1. \<^verbatim>\<open>ThreadPoolExecutor\<close> raises \<^verbatim>\<open>ValueError\<close> for a pool size below
  one; the other exceptions come from \<^verbatim>\<open>time.sleep(DELAY)\<close>, from the division
  \<^verbatim>\<open>len(ips)/total_time\<close> in the printed summary and from \<^verbatim>\<open>save_json\<close>. The
  other elapsed times only feed the printed text and are left out.
\<close>

definition main :: "'p env \<Rightarrow> string list \<Rightarrow> 'p run_result" where
  "main e argv =
     (if length argv < 2 then exit_with 1
      else
        (let ips = targets e argv in
           if ips = [] then exit_with 1
           else if max_workers e \<le> 0 then
             crash (ValueError ''max_workers must be greater than 0'') False initial_state
           else
             (case submit_all (delay_sleep e) [] ips of
                Inl err \<Rightarrow> crash err False initial_state
              | Inr futures \<Rightarrow>
                  (let st = collect e futures in
                     if total_time e = 0 then
                       crash (ZeroDivisionError ''float division by zero'') False st
                     else
                       (case dump_json e (output_file argv) (build_output e argv ips st) of
                          Some err \<Rightarrow> crash err True st
                        | None \<Rightarrow>
                            \<lparr>exit_code = 0, uncaught = None, save_called = True,
                             written = Some (output_file argv, build_output e argv ips st),
                             final = st\<rparr>)))))"

text \<open>The keys stored by a run, one entry for each execution of the assignment.\<close>

fun stored_keys :: "event list \<Rightarrow> string list" where
  "stored_keys [] = []"
| "stored_keys (Store k # evs) = k # stored_keys evs"
| "stored_keys (ev # evs) = stored_keys evs"

section \<open>The harvesting flow: \<^verbatim>\<open>get_ip\<close> (logger.py)\<close>

record harvest =
  h_success :: bool
  h_ip :: string
  h_id :: int
  h_note :: "string option"

text \<open>
  The loop over the lines of the response body: the first line that has four segments,
  all in range, is returned; a segment that does not parse is skipped by the bare
  \<^verbatim>\<open>except\<close>.
\<close>

fun first_valid_line :: "string list \<Rightarrow> string option" where
  "first_valid_line [] = None"
| "first_valid_line (l # ls) =
     (let line = strip l; parts = split_on CHR ''.'' line in
        if length parts = 4 then
          (case all_in_range parts of
             Inr True \<Rightarrow> Some line
           | Inr False \<Rightarrow> first_valid_line ls
           | Inl e \<Rightarrow> first_valid_line ls)
        else first_valid_line ls)"

definition logged :: "int \<Rightarrow> harvest" where
  "logged check_id =
     \<lparr>h_success = True, h_ip = ''logged'', h_id = check_id,
      h_note = Some ''Response failed but logged''\<rparr>"

text \<open>
  \<open>fetched\<close> is what the request through the proxy gives inside the \<^verbatim>\<open>try\<close> block:
  the decoded body, or the exception raised by opening, reading or decoding.
\<close>

definition get_ip :: "py_error + string \<Rightarrow> int \<Rightarrow> harvest" where
  "get_ip fetched check_id =
     (case fetched of
        Inl e \<Rightarrow> logged check_id
      | Inr body \<Rightarrow>
          (let lines = split_on (CHR 0x0A) (strip body) in
             case first_valid_line lines of
               Some line \<Rightarrow> \<lparr>h_success = True, h_ip = line, h_id = check_id, h_note = None\<rparr>
             | None \<Rightarrow>
                 (case lines of
                    [] \<Rightarrow> logged check_id
                  | l # ls \<Rightarrow> \<lparr>h_success = True, h_ip = strip l, h_id = check_id, h_note = None\<rparr>)))"

section \<open>A sample run\<close>

text \<open>
  A concrete environment on which the definitions above can be evaluated. Its reader
  handles tables without quoting whose rows are as long as the header; it is one
  possible behaviour of the library's reader, not a model of it.
\<close>

definition tsv_line :: "string list \<Rightarrow> string" where
  "tsv_line cells = foldr (\<lambda>c acc. if acc = [] then c else c @ CHR 0x09 # acc) cells [] @ [CHR 0x0A]"

definition chomp :: "string \<Rightarrow> string" where
  "chomp l = (if l \<noteq> [] \<and> last l = CHR 0x0A then butlast l else l)"

definition plain_dict_reader :: "string list \<Rightarrow> py_error + row list" where
  "plain_dict_reader ls =
     (case ls of
        [] \<Rightarrow> Inr []
      | h # rest \<Rightarrow>
          Inr (map (\<lambda>l. map_of (zip (split_on (CHR 0x09) (chomp h))
                                    (map Some (split_on (CHR 0x09) (chomp l))))) rest))"

definition sample_env :: "string env" where
  "sample_env =
     \<lparr>api_key = [], max_workers = 3,
      fs_read = (\<lambda>f. if f = ''in.csv'' then
                   Inr [tsv_line [''sep=''], tsv_line [''Date'', ''Ip''],
                        tsv_line [''d1'', ''8.8.8.8''], tsv_line [''d2'', ''1.2.3.4''],
                        tsv_line [''d3'', ''9.9.9.9''], tsv_line [''d4'', ''8.8.8.8''],
                        tsv_line [''d5'', ''1.2.3.999'']]
                 else Inl (OSError ''No such file or directory'')),
      dict_reader = plain_dict_reader,
      tqdm_available = False,
      opener = (\<lambda>k. None),
      sleeper = (\<lambda>k i. time_sleep),
      net = (\<lambda>u i. if u = ''https://proxycheck.io/v3/9.9.9.9''
                     then HTTPError 429 ''Too Many Requests'' else Ok ''payload''),
      wall = (\<lambda>k i. (0, [])),
      delay_sleep = (\<lambda>i. None),
      schedule = [2, 0],
      total_time = 3,
      now_iso = ''2025-01-01T00:00:00'',
      dump_json = (\<lambda>f d. None)\<rparr>"

definition sample_argv :: "string list" where
  "sample_argv = [''proxycheck.py'', ''in.csv'']"

text \<open>
  The same run on a machine where building the opener of one worker fails, as
  \<^verbatim>\<open>ssl._create_unverified_context\<close> does when the key log file named by the
  environment cannot be opened.
\<close>

definition broken_env :: "string env" where
  "broken_env =
     sample_env\<lparr>opener := (\<lambda>k. if k = ''9.9.9.9''
                                then Some (OSError ''No such file or directory'') else None)\<rparr>"

section \<open>Properties of the check worker\<close>

lemma str_int_429: "str_int 429 = ''429''"
  by (simp add: str_int_def str_nat.simps digit_char_def)

lemma retry_loop_done:
  "\<not> int attempt < K \<Longrightarrow> retry_loop a K B slp call clk attempt = (Inr None, [])"
  by (simp add: retry_loop.simps [of a K B slp call clk attempt])

lemma retry_loop_Ok:
  "int attempt < K \<Longrightarrow> call attempt = Ok d \<Longrightarrow>
   retry_loop a K B slp call clk attempt
     = (Inr (Some (success_outcome a d (clk attempt))), [Request attempt])"
  by (simp add: retry_loop.simps [of a K B slp call clk attempt] request_then_def)

lemma retry_loop_retry:
  "int attempt < K - 1 \<Longrightarrow> \<forall>d. call attempt \<noteq> Ok d \<Longrightarrow>
   retry_loop a K B slp call clk attempt =
     request_then attempt
       (sleep_then
          (slp attempt (if \<exists>reason. call attempt = HTTPError 429 reason then B * 2 ^ attempt else B))
          (if \<exists>reason. call attempt = HTTPError 429 reason then B * 2 ^ attempt else B)
          (retry_loop a K B slp call clk (Suc attempt)))"
  by (cases "call attempt") (auto simp: retry_loop.simps [of a K B slp call clk attempt])

lemma retry_loop_last:
  "int attempt < K \<Longrightarrow> \<not> int attempt < K - 1 \<Longrightarrow> \<forall>d. call attempt \<noteq> Ok d \<Longrightarrow>
   retry_loop a K B slp call clk attempt =
     (Inr (Some (failure_outcome a
        (case call attempt of HTTPError code reason \<Rightarrow> ''HTTP '' @ str_int code @ '': '' @ reason
                            | OtherError msg \<Rightarrow> msg | Ok d \<Rightarrow> []) (clk attempt))),
      [Request attempt])"
  by (cases "call attempt")
     (auto simp: retry_loop.simps [of a K B slp call clk attempt] request_then_def)

lemma retry_loop_not_none:
  "int attempt < K \<Longrightarrow> fst (retry_loop a K B slp call clk attempt) \<noteq> Inr None"
proof (induction a K B slp call clk attempt rule: retry_loop.induct)
  case (1 a K B slp call clk attempt)
  show ?case
    using "1.prems" "1.IH"
    by (auto simp: retry_loop.simps [of a K B slp call clk attempt] sleep_then_def
        request_then_def split: response.splits option.splits)
qed

lemma retry_loop_outcome:
  "fst (retry_loop a K B slp call clk attempt) = Inr (Some r) \<Longrightarrow>
     (data r \<noteq> None) = success r \<and> (error r \<noteq> None) = (\<not> success r) \<and> ip r = a"
proof (induction a K B slp call clk attempt rule: retry_loop.induct)
  case (1 a K B slp call clk attempt)
  show ?case
    using "1.prems" "1.IH"
    by (auto simp: retry_loop.simps [of a K B slp call clk attempt] sleep_then_def
        request_then_def success_outcome_def failure_outcome_def
        split: response.splits if_splits option.splits)
qed


lemma later_request:
  "j \<in> set (requests_of (snd (retry_loop a K B slp call clk attempt))) \<Longrightarrow> j \<noteq> attempt \<Longrightarrow>
     int attempt < K - 1 \<and> (\<forall>d. call attempt \<noteq> Ok d) \<and>
     slp attempt (if \<exists>reason. call attempt = HTTPError 429 reason then B * 2 ^ attempt else B)
       = None \<and>
     j \<in> set (requests_of (snd (retry_loop a K B slp call clk (Suc attempt))))"
  by (cases "call attempt")
     (auto simp: retry_loop.simps [of a K B slp call clk attempt] request_then_def sleep_then_def
        split: if_splits option.splits)

lemma requests_from:
  "j \<in> set (requests_of (snd (retry_loop a K B slp call clk attempt))) \<Longrightarrow> attempt \<le> j \<and> int j < K"
proof (induction a K B slp call clk attempt rule: retry_loop.induct)
  case (1 a K B slp call clk attempt)
  show ?case
  proof (cases "j = attempt")
    case True
    then show ?thesis
      using "1.prems" by (auto simp: retry_loop.simps [of a K B slp call clk attempt] split: if_splits)
  next
    case False
    note l = later_request [OF "1.prems" False]
    have k: "int attempt < K" using l by simp
    show ?thesis
    proof (cases "call attempt")
      case (Ok d)
      then show ?thesis using l by simp
    next
      case (HTTPError code reason)
      show ?thesis
      proof (cases "code = 429")
        case True
        then show ?thesis using "1.IH"(1) [OF k HTTPError] l by auto
      next
        case False
        then show ?thesis using "1.IH"(2) [OF k HTTPError] l by auto
      qed
    next
      case (OtherError msg)
      then show ?thesis using "1.IH"(3) [OF k OtherError] l by auto
    qed
  qed
qed



lemma failure_only_when_exhausted:
  "fst (retry_loop a K B slp call clk attempt) = Inr (Some r) \<Longrightarrow> \<not> success r \<Longrightarrow>
   requests_of (snd (retry_loop a K B slp call clk attempt)) = [attempt..<nat K]"
proof (induction "nat K - attempt" arbitrary: attempt)
  case 0
  then have "\<not> int attempt < K" by simp
  then show ?case using "0.prems" by (simp add: retry_loop_done)
next
  case (Suc n)
  then have k: "int attempt < K" by simp
  show ?case
  proof (cases "\<exists>d. call attempt = Ok d")
    case True
    then show ?thesis using Suc.prems k by (auto simp: retry_loop_Ok success_outcome_def)
  next
    case False
    then have nok: "\<forall>d. call attempt \<noteq> Ok d" by simp
    show ?thesis
    proof (cases "int attempt < K - 1")
      case last: False
      then have e: "[attempt..<nat K] = [attempt]" using k by (simp add: upt_conv_Cons)
      show ?thesis
        using retry_loop_last [where call = call and attempt = attempt, OF k last nok] e by simp
    next
      case lt: True
      have n: "n = nat K - Suc attempt" using Suc.hyps(2) by simp
      have up: "[attempt..<nat K] = attempt # [Suc attempt..<nat K]"
        using k by (simp add: upt_conv_Cons)
      note u = retry_loop_retry [where call = call and attempt = attempt, OF lt nok, of a B slp clk]
      show ?thesis
      proof (cases "slp attempt (if \<exists>reason. call attempt = HTTPError 429 reason
          then B * 2 ^ attempt else B)")
        case (Some err)
        then show ?thesis using Suc.prems(1) by (simp add: u sleep_then_def request_then_def)
      next
        case None
        then have "fst (retry_loop a K B slp call clk (Suc attempt)) = Inr (Some r)"
          using Suc.prems(1) by (simp add: u sleep_then_def request_then_def)
        then have "requests_of (snd (retry_loop a K B slp call clk (Suc attempt)))
            = [Suc attempt..<nat K]"
          using Suc.hyps(1) [OF n] Suc.prems(2) by simp
        then show ?thesis using None by (simp add: u sleep_then_def request_then_def up)
      qed
    qed
  qed
qed

lemma retry_loop_all_rate_limited:
  "int attempt < K \<Longrightarrow>
   \<forall>j. int j < K \<longrightarrow> call j = HTTPError 429 (reason j) \<Longrightarrow>
   \<forall>j. int j < K - 1 \<longrightarrow> slp j (B * 2 ^ j) = None \<Longrightarrow>
   fst (retry_loop a K B slp call clk attempt)
     = Inr (Some (failure_outcome a (''HTTP 429: '' @ reason (nat K - 1)) (clk (nat K - 1)))) \<and>
   requests_of (snd (retry_loop a K B slp call clk attempt)) = [attempt..<nat K] \<and>
   sleeps_of (snd (retry_loop a K B slp call clk attempt))
     = map (\<lambda>j. B * 2 ^ j) [attempt..<nat K - 1]"
proof (induction "nat K - 1 - attempt" arbitrary: attempt)
  case 0
  then have e: "attempt = nat K - 1" and nlt: "\<not> int attempt < K - 1" by auto
  have c: "call attempt = HTTPError 429 (reason attempt)" using 0 by simp
  then have nok: "\<forall>d. call attempt \<noteq> Ok d" by simp
  have up: "[attempt..<nat K] = [attempt]" using "0.prems"(1) nlt by (simp add: upt_conv_Cons)
  show ?case
    using up
    by (simp add: retry_loop_last [where call = call and attempt = attempt, OF "0.prems"(1) nlt nok]
        c str_int_429) (simp add: e)
next
  case (Suc n)
  then have lt: "int attempt < K - 1" by auto
  have c: "call attempt = HTTPError 429 (reason attempt)" using Suc by simp
  then have nok: "\<forall>d. call attempt \<noteq> Ok d" by simp
  have n: "n = nat K - 1 - Suc attempt" using Suc.hyps(2) by simp
  have lt': "int (Suc attempt) < K" using lt by simp
  have up: "[attempt..<nat K - Suc 0] = attempt # [Suc attempt..<nat K - Suc 0]"
    "[attempt..<nat K] = attempt # [Suc attempt..<nat K]"
    using lt by (simp_all add: upt_conv_Cons)
  have acc: "slp attempt (B * 2 ^ attempt) = None" using Suc.prems(3) lt by simp
  show ?case
    using Suc.hyps(1) [OF n lt' Suc.prems(2,3)] c acc
    by (simp add: retry_loop_retry [where call = call and attempt = attempt, OF lt nok]
        sleep_then_def request_then_def up)
qed



text \<open>
  Claim C3. Every dictionary the check worker returns has exactly one of the keys
  \<^verbatim>\<open>'data'\<close> and \<^verbatim>\<open>'error'\<close>: \<^verbatim>\<open>'data'\<close> is present exactly when
  \<^verbatim>\<open>'success'\<close> is true, \<^verbatim>\<open>'error'\<close> exactly when it is false.
\<close>

theorem outcome_has_exactly_one_of_data_and_error:
  "fst (check_ip_proxycheck key built slp nw clk a K B) = Inr (Some r) \<Longrightarrow>
     (data r \<noteq> None) = success r \<and> (error r \<noteq> None) = (\<not> success r) \<and>
     (data r = None) \<noteq> (error r = None)"
  using retry_loop_outcome [of a K B slp "nw (request_url key a)" clk 0 r]
  by (cases built) (auto simp: check_ip_proxycheck_def)

theorem outcome_has_exactly_one_of_data_and_error_witness:
  "fst (check_ip_proxycheck [] None (\<lambda>i. time_sleep)
        (\<lambda>u i. if i = 0 then HTTPError 429 ''Too Many Requests''
          else if i = 1 then OtherError ''timed out'' else HTTPError 500 ''Internal Server Error'')
        (\<lambda>i. (0, [])) ''1.2.3.4'' 3 2)
     = Inr (Some (failure_outcome ''1.2.3.4'' ''HTTP 500: Internal Server Error'' (0, [])
          :: unit outcome)) \<and>
   (data (failure_outcome ''1.2.3.4'' ''HTTP 500: Internal Server Error'' (0, []) :: unit outcome) \<noteq> None)
     = success (failure_outcome ''1.2.3.4'' ''HTTP 500: Internal Server Error'' (0, []) :: unit outcome) \<and>
   (error (failure_outcome ''1.2.3.4'' ''HTTP 500: Internal Server Error'' (0, []) :: unit outcome) \<noteq> None)
     = (\<not> success (failure_outcome ''1.2.3.4'' ''HTTP 500: Internal Server Error'' (0, []) :: unit outcome))"
proof -
  have h: "fst (check_ip_proxycheck [] None (\<lambda>i. time_sleep)
        (\<lambda>u i. if i = 0 then HTTPError 429 ''Too Many Requests''
          else if i = 1 then OtherError ''timed out'' else HTTPError 500 ''Internal Server Error'')
        (\<lambda>i. (0, [])) ''1.2.3.4'' 3 2)
     = Inr (Some (failure_outcome ''1.2.3.4'' ''HTTP 500: Internal Server Error'' (0, [])
          :: unit outcome))"
    by (simp add: check_ip_proxycheck_def retry_loop.simps sleep_then_def request_then_def
        time_sleep_def str_int_def str_nat.simps digit_char_def)
  show ?thesis
    using h outcome_has_exactly_one_of_data_and_error [OF h] by simp
qed




text \<open>
  Claim C5, as amended. When all \<open>K\<close> attempts are rate-limited and every back-off
  call of \<^verbatim>\<open>time.sleep\<close> returns, the worker returns a failure whose error text is
  \<^verbatim>\<open>HTTP 429: \<close> followed by the reason of the last attempt, after \<open>K\<close> requests
  and \<open>K - 1\<close> sleeps with doubling delays. Whatever the attempts give, a failure is
  returned only when all \<open>K\<close> attempts have been made.
\<close>

theorem all_rate_limited_fails:
  "(1 \<le> K \<and> built = None \<and>
    (\<forall>j. int j < K \<longrightarrow> nw (request_url key a) j = HTTPError 429 (reason j)) \<and>
    (\<forall>j. int j < K - 1 \<longrightarrow> slp j (B * 2 ^ j) = None) \<longrightarrow>
      fst (check_ip_proxycheck key built slp nw clk a K B)
        = Inr (Some (failure_outcome a (''HTTP 429: '' @ reason (nat K - 1)) (clk (nat K - 1)))) \<and>
      requests_of (snd (check_ip_proxycheck key built slp nw clk a K B)) = [0..<nat K] \<and>
      sleeps_of (snd (check_ip_proxycheck key built slp nw clk a K B))
        = map (\<lambda>j. B * 2 ^ j) [0..<nat K - 1]) \<and>
   (\<forall>r. fst (check_ip_proxycheck key built slp nw clk a K B) = Inr (Some r) \<and> \<not> success r \<longrightarrow>
      requests_of (snd (check_ip_proxycheck key built slp nw clk a K B)) = [0..<nat K])"
proof (intro conjI impI allI)
  assume h: "1 \<le> K \<and> built = None \<and>
    (\<forall>j. int j < K \<longrightarrow> nw (request_url key a) j = HTTPError 429 (reason j)) \<and>
    (\<forall>j. int j < K - 1 \<longrightarrow> slp j (B * 2 ^ j) = None)"
  then have k: "int 0 < K" by simp
  note r = retry_loop_all_rate_limited [OF k, of "nw (request_url key a)" reason slp B a clk]
  have c: "check_ip_proxycheck key built slp nw clk a K B
      = retry_loop a K B slp (nw (request_url key a)) clk 0"
    using h by (simp add: check_ip_proxycheck_def)
  show "fst (check_ip_proxycheck key built slp nw clk a K B)
        = Inr (Some (failure_outcome a (''HTTP 429: '' @ reason (nat K - 1)) (clk (nat K - 1))))"
    using r h c by simp
  show "requests_of (snd (check_ip_proxycheck key built slp nw clk a K B)) = [0..<nat K]"
    using r h c by simp
  show "sleeps_of (snd (check_ip_proxycheck key built slp nw clk a K B))
        = map (\<lambda>j. B * 2 ^ j) [0..<nat K - 1]"
    using r h c by simp
next
  fix r
  assume f: "fst (check_ip_proxycheck key built slp nw clk a K B) = Inr (Some r) \<and> \<not> success r"
  then have b: "built = None"
    by (cases built) (auto simp: check_ip_proxycheck_def)
  show "requests_of (snd (check_ip_proxycheck key built slp nw clk a K B)) = [0..<nat K]"
    using f failure_only_when_exhausted [of a K B slp "nw (request_url key a)" clk 0 r]
    by (simp add: check_ip_proxycheck_def b)
qed

theorem all_rate_limited_fails_witness:
  "fst (check_ip_proxycheck [] None (\<lambda>i. time_sleep)
      (\<lambda>u i. HTTPError 429 ''Too Many Requests'') (\<lambda>i. (0, [])) ''9.9.9.9'' 3 2)
     = Inr (Some (failure_outcome ''9.9.9.9'' ''HTTP 429: Too Many Requests'' (0, [])
         :: unit outcome)) \<and>
   requests_of (snd (check_ip_proxycheck [] None (\<lambda>i. time_sleep)
      (\<lambda>u i. HTTPError 429 ''Too Many Requests'' :: unit response) (\<lambda>i. (0, []))
      ''9.9.9.9'' 3 2)) = [0, 1, 2] \<and>
   sleeps_of (snd (check_ip_proxycheck [] None (\<lambda>i. time_sleep)
      (\<lambda>u i. HTTPError 429 ''Too Many Requests'' :: unit response) (\<lambda>i. (0, []))
      ''9.9.9.9'' 3 2)) = [2, 4]"
proof -
  let ?nw = "\<lambda>(u::string) (i::nat). HTTPError 429 ''Too Many Requests'' :: unit response"
  have h: "(1::int) \<le> 3 \<and> None = (None :: py_error option) \<and>
      (\<forall>j. int j < 3 \<longrightarrow>
         ?nw (request_url [] ''9.9.9.9'') j = HTTPError 429 ((\<lambda>j. ''Too Many Requests'') j)) \<and>
      (\<forall>j. int j < 3 - 1 \<longrightarrow> (\<lambda>i. time_sleep) j (2 * 2 ^ j) = None)"
  proof (intro conjI allI impI)
    fix j :: nat
    assume "int j < 3 - 1"
    then have "j = 0 \<or> j = 1" by auto
    then show "(\<lambda>i. time_sleep) j (2 * 2 ^ j) = None"
      by (auto simp: time_sleep_def)
  qed simp_all
  note t = all_rate_limited_fails [where K = 3 and B = 2 and built = None and nw = ?nw
      and key = "[]" and a = "''9.9.9.9''" and reason = "\<lambda>j. ''Too Many Requests''"
      and slp = "\<lambda>i. time_sleep" and clk = "\<lambda>i. (0, [])"]
  show ?thesis
    using mp [OF conjunct1 [OF t] h] by (simp add: upt_rec numeral_2_eq_2)
qed

text \<open>
  The claim as it stands fails for a number of attempts that makes the doubling delay
  leave the range of \<^verbatim>\<open>time.sleep\<close>: with the default delay 2 and 36 attempts, all
  rate-limited, the worker ends with \<^verbatim>\<open>OverflowError\<close> after 34 requests and
  returns no failure outcome.
\<close>

theorem all_rate_limited_raises_counterexample:
  "fst (check_ip_proxycheck [] None (\<lambda>i. time_sleep)
      (\<lambda>u i. HTTPError 429 ''Too Many Requests'' :: unit response)
      (\<lambda>i. (0, [])) ''9.9.9.9'' 36 2)
     = Inl (OverflowError ''timestamp too large to convert to C _PyTime_t'') \<and>
   length (requests_of (snd (check_ip_proxycheck [] None (\<lambda>i. time_sleep)
      (\<lambda>u i. HTTPError 429 ''Too Many Requests'' :: unit response)
      (\<lambda>i. (0, [])) ''9.9.9.9'' 36 2))) = 34"
  by code_simp




section \<open>Properties of the target provider\<close>

lemma all_in_range_True:
  "all_in_range ps = Inr True \<Longrightarrow> list_all in_byte_range ps"
  by (induction ps) (auto simp: in_byte_range_def split: option.splits if_splits)

lemma add_ip_sound:
  "x \<in> add_ip t ips \<Longrightarrow> x \<in> ips \<or> int_quad x"
  by (auto simp: add_ip_def Let_def int_quad_def all_in_range_True
      split: if_splits sum.splits bool.splits)

lemma add_ip_finite: "finite ips \<Longrightarrow> finite (add_ip t ips)"
  by (auto simp: add_ip_def Let_def split: sum.splits bool.splits)

lemma collect_ips_sound:
  "collect_ips rs ips = Inr ips' \<Longrightarrow> finite ips \<Longrightarrow> (\<forall>x\<in>ips. int_quad x) \<Longrightarrow>
     finite ips' \<and> (\<forall>x\<in>ips'. int_quad x)"
proof (induction rs arbitrary: ips)
  case Nil
  then show ?case by simp
next
  case (Cons r rs)
  from Cons.prems(1) obtain t where t: "row_ip r = Inr t"
    and rest: "collect_ips rs (add_ip t ips) = Inr ips'"
    by (auto split: sum.splits)
  have "\<forall>x\<in>add_ip t ips. int_quad x"
    using add_ip_sound Cons.prems(3) by blast
  then show ?case
    using Cons.IH [OF rest add_ip_finite [OF Cons.prems(2)]] by blast
qed

lemma load_ips_cases:
  "load_ips_from_csv fs rd f = [] \<or>
   (\<exists>ips. finite ips \<and> (\<forall>x\<in>ips. int_quad x) \<and> load_ips_from_csv fs rd f = sorted_list_of_set ips)"
proof (cases "fs f")
  case (Inl e)
  then show ?thesis by (simp add: load_ips_from_csv_def)
next
  case lines: (Inr lines)
  show ?thesis
  proof (cases "rd (skip_sep lines)")
    case (Inl e)
    then show ?thesis using lines by (simp add: load_ips_from_csv_def)
  next
    case rows: (Inr rows)
    show ?thesis
    proof (cases "collect_ips rows {}")
      case (Inl e)
      then show ?thesis using lines rows by (simp add: load_ips_from_csv_def)
    next
      case (Inr ips)
      then have "finite ips \<and> (\<forall>x\<in>ips. int_quad x)"
        using collect_ips_sound [of rows "{}" ips] by simp
      moreover have "load_ips_from_csv fs rd f = sorted_list_of_set ips"
        using lines rows Inr by (simp add: load_ips_from_csv_def)
      ultimately show ?thesis by blast
    qed
  qed
qed

lemma load_ips_distinct: "distinct (load_ips_from_csv fs rd f)"
  using load_ips_cases [of fs rd f] by auto

lemma load_ips_sorted_int_quads:
  "sorted (load_ips_from_csv fs rd f) \<and> list_all int_quad (load_ips_from_csv fs rd f)"
  using load_ips_cases [of fs rd f] by (auto simp: list_all_iff)

lemma digit_char_digit: "d < 10 \<Longrightarrow> digit_char d \<in> set ''0123456789''"
  unfolding digit_char_def by (rule nth_mem) simp

lemma str_nat_digits: "set (str_nat n) \<subseteq> set ''0123456789''"
proof (induction n rule: str_nat.induct)
  case (1 n)
  show ?case
  proof (cases "n < 10")
    case True
    then show ?thesis using digit_char_digit [of n] by (subst str_nat.simps) simp
  next
    case False
    have "n mod 10 < 10" by simp
    then show ?thesis
      using "1.IH" [OF False] digit_char_digit [of "n mod 10"] False
      by (subst str_nat.simps) simp
  qed
qed

lemma ipv4_literal_chars:
  "ipv4_literal s \<Longrightarrow> set s \<subseteq> set ''0123456789.''"
  using str_nat_digits by (fastforce simp: ipv4_literal_def)

lemma sample_literal: "ipv4_literal ''1.2.3.4''"
  unfolding ipv4_literal_def
  by (rule exI [of _ 1], rule exI [of _ 2], rule exI [of _ 3], rule exI [of _ 4])
     (simp add: str_nat.simps digit_char_def)

text \<open>
  Claim C8. The filter of the provider lets through what \<^verbatim>\<open>int\<close> accepts, which
  is more than the decimal numerals: on a table whose \<^verbatim>\<open>Ip\<close> column holds
  \<^verbatim>\<open>+1. 2.3_0.4\<close> the provider returns that text, which is not an IPv4 literal. The
  list is duplicate-free and sorted all the same (\<open>load_ips_distinct\<close>,
  \<open>load_ips_sorted_int_quads\<close>).
\<close>

theorem provider_returns_non_literal:
  "load_ips_from_csv (\<lambda>f. Inr []) (\<lambda>ls. Inr [[''Ip'' \<mapsto> Some ''+1. 2.3_0.4'']]) ''in.csv''
     = [''+1. 2.3_0.4''] \<and>
   \<not> ipv4_literal ''+1. 2.3_0.4''"
proof -
  have a: "load_ips_from_csv (\<lambda>f. Inr []) (\<lambda>ls. Inr [[''Ip'' \<mapsto> Some ''+1. 2.3_0.4'']]) ''in.csv''
     = [''+1. 2.3_0.4'']"
    by code_simp
  have b: "\<not> ipv4_literal ''+1. 2.3_0.4''"
    using ipv4_literal_chars [of "''+1. 2.3_0.4''"] by auto
  show ?thesis using a b by blast
qed

section \<open>Properties of the run\<close>

lemma stored_keys_append: "stored_keys (xs @ ys) = stored_keys xs @ stored_keys ys"
  by (induction xs rule: stored_keys.induct) simp_all

lemma submit_all_futures:
  "submit_all ds acc ks = Inr fs \<Longrightarrow> map snd fs = map snd acc @ ks"
proof (induction ks arbitrary: acc)
  case Nil
  then show ?case by simp
next
  case (Cons k ks)
  then show ?case
    by (auto simp: Let_def split: option.splits)
qed

lemma submit_all_returns:
  "\<forall>i. length acc \<le> i \<and> i < length acc + length ks \<longrightarrow> ds i = None \<Longrightarrow>
   \<exists>fs. submit_all ds acc ks = Inr fs"
proof (induction ks arbitrary: acc)
  case Nil
  then show ?case by simp
next
  case (Cons k ks)
  have here: "ds (length acc) = None" using Cons.prems by simp
  have "\<forall>i. length (acc @ [(length acc, k)]) \<le> i \<and>
      i < length (acc @ [(length acc, k)]) + length ks \<longrightarrow> ds i = None"
    using Cons.prems by simp
  then show ?case
    using Cons.IH [of "acc @ [(length acc, k)]"] here by (simp add: Let_def)
qed

lemma mset_remove_nth:
  "i < length ys \<Longrightarrow> add_mset (ys ! i) (mset (take i ys @ drop (Suc i) ys)) = mset ys"
proof -
  assume i: "i < length ys"
  have "mset ys = mset (take i ys @ ys ! i # drop (Suc i) ys)"
    using id_take_nth_drop [OF i] by simp
  then show ?thesis by simp
qed

lemma mset_completion_order: "mset (completion_order sched xs) = mset xs"
proof (induction sched xs rule: completion_order.induct)
  case (1 sched)
  then show ?case by simp
next
  case (2 x xs)
  then show ?case by simp
next
  case (3 s sched x xs)
  define ys where "ys = x # xs"
  define i where "i = s mod length ys"
  have i: "i < length ys" by (simp add: i_def ys_def)
  have ih: "mset (completion_order sched (take i ys @ drop (Suc i) ys))
      = mset (take i ys @ drop (Suc i) ys)"
    using "3.IH" [of i] by (simp add: i_def ys_def)
  have "completion_order (s # sched) (x # xs)
      = ys ! i # completion_order sched (take i ys @ drop (Suc i) ys)"
    by (simp add: i_def ys_def Let_def)
  then have "mset (completion_order (s # sched) (x # xs))
      = add_mset (ys ! i) (mset (take i ys @ drop (Suc i) ys))"
    using ih by simp
  then show ?case
    using mset_remove_nth [OF i] by (simp add: ys_def)
qed

lemma collect_step_Some:
  assumes "returned k = Inr (Some r)"
  shows "results (collect_step b returned st k) = (results st)(k \<mapsto> r)"
    and "processed_count (collect_step b returned st k) + error_count (collect_step b returned st k)
           = Suc (processed_count st + error_count st)"
    and "stored_keys (events (collect_step b returned st k)) = stored_keys (events st) @ [k]"
  using assms by (simp_all add: collect_step_def Let_def stored_keys_append)

lemma collect_step_raised:
  assumes "returned k = Inl err"
  shows "results (collect_step b returned st k) = results st"
    and "processed_count (collect_step b returned st k) + error_count (collect_step b returned st k)
           = Suc (processed_count st + error_count st)"
    and "stored_keys (events (collect_step b returned st k)) = stored_keys (events st)"
  using assms by (simp_all add: collect_step_def Let_def stored_keys_append)

lemma collect_fold:
  "\<forall>k\<in>set ks. returned k \<noteq> Inr None \<Longrightarrow>
   dom (results (foldl (collect_step b returned) st ks))
     = dom (results st) \<union> {k \<in> set ks. \<not> raised (returned k)} \<and>
   processed_count (foldl (collect_step b returned) st ks)
     + error_count (foldl (collect_step b returned) st ks)
     = processed_count st + error_count st + length ks \<and>
   stored_keys (events (foldl (collect_step b returned) st ks))
     = stored_keys (events st) @ filter (\<lambda>k. \<not> raised (returned k)) ks \<and>
   (\<forall>k\<in>set ks. \<forall>r. returned k = Inr (Some r) \<longrightarrow>
      results (foldl (collect_step b returned) st ks) k = Some r) \<and>
   (\<forall>k. raised (returned k) \<longrightarrow>
      results (foldl (collect_step b returned) st ks) k = results st k)"
proof (induction ks rule: rev_induct)
  case Nil
  then show ?case by simp
next
  case (snoc k ks)
  let ?st = "foldl (collect_step b returned) st ks"
  let ?st' = "collect_step b returned ?st k"
  have ih: "dom (results ?st) = dom (results st) \<union> {k \<in> set ks. \<not> raised (returned k)}"
    "processed_count ?st + error_count ?st = processed_count st + error_count st + length ks"
    "stored_keys (events ?st) = stored_keys (events st) @ filter (\<lambda>k. \<not> raised (returned k)) ks"
    "\<forall>k\<in>set ks. \<forall>r. returned k = Inr (Some r) \<longrightarrow> results ?st k = Some r"
    "\<forall>k. raised (returned k) \<longrightarrow> results ?st k = results st k"
    using snoc.IH snoc.prems by auto
  have nn: "returned k \<noteq> Inr None" using snoc.prems by simp
  show ?case
  proof (cases "returned k")
    case (Inl err)
    then have r: "raised (returned k)" by (simp add: raised_def)
    note s = collect_step_raised [of returned k err b ?st, OF Inl]
    have a: "dom (results ?st') = dom (results st) \<union> {j \<in> set (ks @ [k]). \<not> raised (returned j)}"
      using ih(1) r by (auto simp: s(1))
    have c: "processed_count ?st' + error_count ?st'
        = processed_count st + error_count st + length (ks @ [k])"
      using s(2) ih(2) by simp
    have d: "stored_keys (events ?st')
        = stored_keys (events st) @ filter (\<lambda>k. \<not> raised (returned k)) (ks @ [k])"
      using s(3) ih(3) r by simp
    have e: "\<forall>j\<in>set (ks @ [k]). \<forall>r. returned j = Inr (Some r) \<longrightarrow> results ?st' j = Some r"
      using ih(4) Inl by (auto simp: s(1))
    have f: "\<forall>j. raised (returned j) \<longrightarrow> results ?st' j = results st j"
      using ih(5) by (simp add: s(1))
    show ?thesis using a c d e f by simp
  next
    case (Inr v)
    then obtain r where v: "returned k = Inr (Some r)" using nn by (cases v) auto
    then have r: "\<not> raised (returned k)" by (simp add: raised_def)
    note s = collect_step_Some [of returned k r b ?st, OF v]
    have a: "dom (results ?st') = dom (results st) \<union> {j \<in> set (ks @ [k]). \<not> raised (returned j)}"
      using ih(1) r by (auto simp: s(1))
    have c: "processed_count ?st' + error_count ?st'
        = processed_count st + error_count st + length (ks @ [k])"
      using s(2) ih(2) by simp
    have d: "stored_keys (events ?st')
        = stored_keys (events st) @ filter (\<lambda>k. \<not> raised (returned k)) (ks @ [k])"
      using s(3) ih(3) r by simp
    have e: "\<forall>j\<in>set (ks @ [k]). \<forall>r. returned j = Inr (Some r) \<longrightarrow> results ?st' j = Some r"
      using ih(4) v by (auto simp: s(1))
    have f: "\<forall>j. raised (returned j) \<longrightarrow> results ?st' j = results st j"
      using ih(5) r by (auto simp: s(1))
    show ?thesis using a c d e f by simp
  qed
qed

lemma collect_step_core:
  "results st = results st' \<Longrightarrow> processed_count st = processed_count st' \<Longrightarrow>
   error_count st = error_count st' \<Longrightarrow>
   results (collect_step b returned st k) = results (collect_step b' returned st' k) \<and>
   processed_count (collect_step b returned st k) = processed_count (collect_step b' returned st' k) \<and>
   error_count (collect_step b returned st k) = error_count (collect_step b' returned st' k)"
  by (simp add: collect_step_def Let_def split: sum.splits option.splits)

lemma collect_fold_core:
  "results (foldl (collect_step b returned) st ks) = results (foldl (collect_step b' returned) st ks) \<and>
   processed_count (foldl (collect_step b returned) st ks)
     = processed_count (foldl (collect_step b' returned) st ks) \<and>
   error_count (foldl (collect_step b returned) st ks)
     = error_count (foldl (collect_step b' returned) st ks)"
proof (induction ks rule: rev_induct)
  case Nil
  then show ?case by simp
next
  case (snoc k ks)
  then show ?case
    using collect_step_core [of "foldl (collect_step b returned) st ks"
        "foldl (collect_step b' returned) st ks" b returned k b']
    by simp
qed

lemma submitted_not_none: "fst (submitted e k) \<noteq> Inr None"
  using retry_loop_not_none [of 0 3 k 2 "sleeper e k" "net e (request_url (api_key e) k)" "wall e k"]
  by (cases "opener e k") (simp_all add: submitted_def check_ip_proxycheck_def)

lemma targets_distinct: "distinct (targets e argv)"
  by (simp add: targets_def load_ips_distinct)

lemma main_completed:
  "exit_code (main e argv) = 0 \<Longrightarrow>
     2 \<le> length argv \<and> targets e argv \<noteq> [] \<and> uncaught (main e argv) = None \<and>
     (\<exists>futures. submit_all (delay_sleep e) [] (targets e argv) = Inr futures \<and>
        written (main e argv)
          = Some (output_file argv, build_output e argv (targets e argv) (collect e futures)) \<and>
        final (main e argv) = collect e futures)"
  by (auto simp: main_def Let_def exit_with_def crash_def split: if_splits sum.splits option.splits)

lemma collect_facts:
  assumes "submit_all ds [] ips = Inr futures" and "distinct ips"
  shows "dom (results (collect e futures)) = {k \<in> set ips. \<not> raised (fst (submitted e k))}"
    and "processed_count (collect e futures) + error_count (collect e futures) = length ips"
    and "\<forall>k\<in>set ips. \<forall>r. fst (submitted e k) = Inr (Some r) \<longrightarrow>
           results (collect e futures) k = Some r"
    and "\<forall>k. raised (fst (submitted e k)) \<longrightarrow> results (collect e futures) k = None"
    and "\<forall>k\<in>set ips. count_list (stored_keys (events (collect e futures))) k
           = (if raised (fst (submitted e k)) then 0 else 1)"
    and "card (dom (results (collect e futures)))
           = length (filter (\<lambda>k. \<not> raised (fst (submitted e k))) ips)"
proof -
  let ?ret = "\<lambda>k. fst (submitted e k)"
  let ?order = "map snd (completion_order (schedule e) futures)"
  have ms: "mset ?order = mset ips"
    using submit_all_futures [OF assms(1)] mset_completion_order [of "schedule e" futures]
    by (metis append_Nil list.simps(8) mset_map)
  have s: "set ?order = set ips" using ms by (rule mset_eq_setD)
  have l: "length ?order = length ips" using ms by (rule mset_eq_length)
  have all: "\<forall>k\<in>set ?order. ?ret k \<noteq> Inr None"
    using submitted_not_none by blast
  note f = collect_fold [OF all, of "tqdm_available e" initial_state]
  show d: "dom (results (collect e futures)) = {k \<in> set ips. \<not> raised (fst (submitted e k))}"
    using f s by (simp add: collect_def initial_state_def)
  show "processed_count (collect e futures) + error_count (collect e futures) = length ips"
    using f l by (simp add: collect_def initial_state_def)
  show "\<forall>k\<in>set ips. \<forall>r. fst (submitted e k) = Inr (Some r) \<longrightarrow>
           results (collect e futures) k = Some r"
    using conjunct1 [OF conjunct2 [OF conjunct2 [OF conjunct2 [OF f]]]] s
    unfolding collect_def by blast
  show "\<forall>k. raised (fst (submitted e k)) \<longrightarrow> results (collect e futures) k = None"
    using f by (simp add: collect_def initial_state_def)
  have sk: "stored_keys (events (collect e futures)) = filter (\<lambda>k. \<not> raised (?ret k)) ?order"
    using f by (simp add: collect_def initial_state_def)
  have cnt: "count_list ?order k = count_list ips k" for k
    using ms by (metis count_mset)
  have one: "count_list ips k = 1" if "k \<in> set ips" for k
    using assms(2) that by (induction ips) auto
  have cf: "count_list (filter P xs) k = (if P k then count_list xs k else 0)"
    for P and xs :: "string list" and k
    by (induction xs) auto
  show "\<forall>k\<in>set ips. count_list (stored_keys (events (collect e futures))) k
           = (if raised (fst (submitted e k)) then 0 else 1)"
    using cnt one by (simp add: sk cf)
  have st: "{k \<in> set ips. \<not> raised (fst (submitted e k))}
      = set (filter (\<lambda>k. \<not> raised (fst (submitted e k))) ips)"
    by auto
  have "distinct (filter (\<lambda>k. \<not> raised (fst (submitted e k))) ips)"
    using assms(2) by simp
  then have "card (set (filter (\<lambda>k. \<not> raised (fst (submitted e k))) ips))
      = length (filter (\<lambda>k. \<not> raised (fst (submitted e k))) ips)"
    by (rule distinct_card)
  then show "card (dom (results (collect e futures)))
           = length (filter (\<lambda>k. \<not> raised (fst (submitted e k))) ips)"
    unfolding d st .
qed

lemma sample_targets: "targets sample_env sample_argv = [''1.2.3.4'', ''8.8.8.8'', ''9.9.9.9'']"
  by code_simp

lemma sample_exit: "exit_code (main sample_env sample_argv) = 0"
  by code_simp

lemma broken_targets: "targets broken_env sample_argv = [''1.2.3.4'', ''8.8.8.8'', ''9.9.9.9'']"
  by code_simp

lemma broken_exit: "exit_code (main broken_env sample_argv) = 0"
  by code_simp


lemma sample_none_raised:
  "\<forall>k\<in>set (targets sample_env sample_argv). \<not> raised (fst (submitted sample_env k))"
  unfolding sample_targets by code_simp

lemma run_accounts:
  assumes "exit_code (main e argv) = 0"
  shows "\<exists>out. written (main e argv) = Some (output_file argv, out) \<and>
           out_results out = results (final (main e argv)) \<and>
           successful (metadata out) = processed_count (final (main e argv)) \<and>
           failed (metadata out) = error_count (final (main e argv)) \<and>
           total_ips (metadata out) = length (targets e argv) \<and>
           successful (metadata out) + failed (metadata out) = length (targets e argv) \<and>
           card (dom (out_results out))
             = length (filter (\<lambda>k. \<not> raised (fst (submitted e k))) (targets e argv))"
proof -
  let ?ips = "targets e argv"
  obtain futures where f: "submit_all (delay_sleep e) [] ?ips = Inr futures"
    and w: "written (main e argv)
          = Some (output_file argv, build_output e argv ?ips (collect e futures))"
    and fin: "final (main e argv) = collect e futures"
    using main_completed [OF assms] by blast
  note c = collect_facts [OF f targets_distinct, of e]
  let ?out = "build_output e argv ?ips (collect e futures)"
  have "out_results ?out = results (final (main e argv))"
    and "successful (metadata ?out) = processed_count (final (main e argv))"
    and "failed (metadata ?out) = error_count (final (main e argv))"
    and "total_ips (metadata ?out) = length ?ips"
    and "successful (metadata ?out) + failed (metadata ?out) = length ?ips"
    and "card (dom (out_results ?out))
             = length (filter (\<lambda>k. \<not> raised (fst (submitted e k))) ?ips)"
    using c(2) c(6) by (simp_all add: build_output_def fin)
  then show ?thesis using w by blast
qed

text \<open>
  Claim C1, as amended. When the run completes, the metadata written are the counters
  and the results map of the run, \<open>total_ips\<close> is the number of targets of the
  provider, \<open>successful + failed\<close> is that number too, and the results map has one
  entry for each target whose worker returned. When no worker raised, this gives
  \<open>successful + failed = |results|\<close> and \<open>|results| = total_ips\<close>.
\<close>

theorem metadata_counts_match_store:
  assumes "exit_code (main e argv) = 0"
  shows "\<exists>out. written (main e argv) = Some (output_file argv, out) \<and>
           out_results out = results (final (main e argv)) \<and>
           successful (metadata out) = processed_count (final (main e argv)) \<and>
           failed (metadata out) = error_count (final (main e argv)) \<and>
           total_ips (metadata out) = length (targets e argv) \<and>
           successful (metadata out) + failed (metadata out) = length (targets e argv) \<and>
           card (dom (out_results out))
             = length (filter (\<lambda>k. \<not> raised (fst (submitted e k))) (targets e argv)) \<and>
           ((\<forall>k\<in>set (targets e argv). \<not> raised (fst (submitted e k))) \<longrightarrow>
              successful (metadata out) + failed (metadata out) = card (dom (out_results out)) \<and>
              card (dom (out_results out)) = length (targets e argv))"
proof -
  obtain out where o: "written (main e argv) = Some (output_file argv, out)"
    "out_results out = results (final (main e argv))"
    "successful (metadata out) = processed_count (final (main e argv))"
    "failed (metadata out) = error_count (final (main e argv))"
    "total_ips (metadata out) = length (targets e argv)"
    "successful (metadata out) + failed (metadata out) = length (targets e argv)"
    "card (dom (out_results out))
       = length (filter (\<lambda>k. \<not> raised (fst (submitted e k))) (targets e argv))"
    using run_accounts [OF assms] by blast
  have "(\<forall>k\<in>set (targets e argv). \<not> raised (fst (submitted e k))) \<longrightarrow>
      filter (\<lambda>k. \<not> raised (fst (submitted e k))) (targets e argv) = targets e argv"
    by simp
  then have "(\<forall>k\<in>set (targets e argv). \<not> raised (fst (submitted e k))) \<longrightarrow>
      successful (metadata out) + failed (metadata out) = card (dom (out_results out)) \<and>
      card (dom (out_results out)) = length (targets e argv)"
    using o(6) o(7) by simp
  then show ?thesis using o by blast
qed

theorem metadata_counts_match_store_witness:
  "exit_code (main sample_env sample_argv) = 0 \<and>
   (\<exists>out. written (main sample_env sample_argv) = Some (output_file sample_argv, out) \<and>
      out_results out = results (final (main sample_env sample_argv)) \<and>
      total_ips (metadata out) = length (targets sample_env sample_argv) \<and>
      successful (metadata out) + failed (metadata out) = card (dom (out_results out)) \<and>
      card (dom (out_results out)) = length (targets sample_env sample_argv))"
  using sample_exit sample_none_raised metadata_counts_match_store [OF sample_exit]
  by blast

text \<open>
  The claim as it stands fails when a worker raises: \<^verbatim>\<open>main\<close> counts it in
  \<^verbatim>\<open>error_count\<close> and stores nothing. On the sample run with one opener that
  cannot be built, three targets give \<open>successful + failed = 3\<close> and two entries.
\<close>

theorem raised_worker_counted_not_stored:
  "exit_code (main broken_env sample_argv) = 0 \<and>
   (\<exists>out. written (main broken_env sample_argv) = Some (output_file sample_argv, out) \<and>
      total_ips (metadata out) = 3 \<and>
      successful (metadata out) + failed (metadata out) = 3 \<and>
      card (dom (out_results out)) = 2)"
proof -
  have r: "filter (\<lambda>k. \<not> raised (fst (submitted broken_env k))) [''1.2.3.4'', ''8.8.8.8'', ''9.9.9.9'']
      = [''1.2.3.4'', ''8.8.8.8'']"
    by code_simp
  obtain out where o: "written (main broken_env sample_argv) = Some (output_file sample_argv, out)"
    "total_ips (metadata out) = length (targets broken_env sample_argv)"
    "successful (metadata out) + failed (metadata out) = length (targets broken_env sample_argv)"
    "card (dom (out_results out))
       = length (filter (\<lambda>k. \<not> raised (fst (submitted broken_env k)))
           (targets broken_env sample_argv))"
    using run_accounts [OF broken_exit] by blast
  have "total_ips (metadata out) = 3"
    and "successful (metadata out) + failed (metadata out) = 3"
    and "card (dom (out_results out)) = 2"
    using o(2,3,4) unfolding broken_targets r by simp_all
  then show ?thesis
    using broken_exit o(1) by blast
qed




text \<open>
  Claim C7. The process exits with code 1, and \<^verbatim>\<open>save_json\<close> is not called, when
  the input file cannot be read or gives no target (or no input file is named). A run
  that reaches its end, with no uncaught exception, exits with code 0 and has written
  its output. It does so whatever the opener, the sleeps and the network give to the
  workers, as soon as there are targets, the pool size is positive, the calls of
  \<^verbatim>\<open>time.sleep(DELAY)\<close> return, the elapsed time is not zero and the output can be
  written.
\<close>

theorem exit_codes:
  "(length argv < 2 \<or> (\<exists>err. fs_read e (argv ! 1) = Inl err) \<or> targets e argv = [] \<longrightarrow>
      exit_code (main e argv) = 1 \<and> written (main e argv) = None \<and>
      \<not> save_called (main e argv)) \<and>
   (2 \<le> length argv \<and> targets e argv \<noteq> [] \<and> uncaught (main e argv) = None \<longrightarrow>
      exit_code (main e argv) = 0 \<and>
      (\<exists>out. written (main e argv) = Some (output_file argv, out))) \<and>
   (2 \<le> length argv \<and> targets e argv \<noteq> [] \<and> 0 < max_workers e \<and>
    (\<forall>i<length (targets e argv). delay_sleep e i = None) \<and> total_time e \<noteq> 0 \<and>
    (\<forall>out. dump_json e (output_file argv) out = None) \<longrightarrow>
      exit_code (main (e\<lparr>opener := op, sleeper := sl, net := nw\<rparr>) argv) = 0)"
proof (intro conjI impI)
  assume a: "length argv < 2 \<or> (\<exists>err. fs_read e (argv ! 1) = Inl err) \<or> targets e argv = []"
  have "length argv < 2 \<or> targets e argv = []"
    using a by (auto simp: targets_def load_ips_from_csv_def)
  then show "exit_code (main e argv) = 1" and "written (main e argv) = None"
    and "\<not> save_called (main e argv)"
    by (auto simp: main_def exit_with_def Let_def)
next
  assume b: "2 \<le> length argv \<and> targets e argv \<noteq> [] \<and> uncaught (main e argv) = None"
  then show "exit_code (main e argv) = 0"
    by (auto simp: main_def Let_def exit_with_def crash_def split: if_splits sum.splits option.splits)
  show "\<exists>out. written (main e argv) = Some (output_file argv, out)"
    using b
    by (auto simp: main_def Let_def exit_with_def crash_def split: if_splits sum.splits option.splits)
next
  assume c: "2 \<le> length argv \<and> targets e argv \<noteq> [] \<and> 0 < max_workers e \<and>
    (\<forall>i<length (targets e argv). delay_sleep e i = None) \<and> total_time e \<noteq> 0 \<and>
    (\<forall>out. dump_json e (output_file argv) out = None)"
  let ?e = "e\<lparr>opener := op, sleeper := sl, net := nw\<rparr>"
  have t: "targets ?e argv = targets e argv"
    by (simp add: targets_def)
  obtain fs where fs: "submit_all (delay_sleep e) [] (targets e argv) = Inr fs"
    using submit_all_returns [of "[]" "targets e argv" "delay_sleep e"] c by auto
  show "exit_code (main ?e argv) = 0"
    using c fs by (simp add: main_def Let_def t)
qed

theorem exit_codes_witness:
  "exit_code (main sample_env [''proxycheck.py'', ''missing.csv'']) = 1 \<and>
   written (main sample_env [''proxycheck.py'', ''missing.csv'']) = None \<and>
   \<not> save_called (main sample_env [''proxycheck.py'', ''missing.csv'']) \<and>
   exit_code (main (sample_env\<lparr>opener := \<lambda>k. None, sleeper := \<lambda>k i. time_sleep,
      net := \<lambda>u i. OtherError ''timed out''\<rparr>) sample_argv) = 0"
proof -
  have a: "length [''proxycheck.py'', ''missing.csv''] < 2 \<or>
      (\<exists>err. fs_read sample_env ([''proxycheck.py'', ''missing.csv''] ! 1) = Inl err) \<or>
      targets sample_env [''proxycheck.py'', ''missing.csv''] = []"
    by (simp add: sample_env_def)
  have c: "2 \<le> length sample_argv \<and> targets sample_env sample_argv \<noteq> [] \<and>
      0 < max_workers sample_env \<and>
      (\<forall>i<length (targets sample_env sample_argv). delay_sleep sample_env i = None) \<and>
      total_time sample_env \<noteq> 0 \<and>
      (\<forall>out. dump_json sample_env (output_file sample_argv) out = None)"
    by (simp add: sample_targets) (simp add: sample_env_def sample_argv_def)
  note t1 = exit_codes [where argv = "[''proxycheck.py'', ''missing.csv'']" and e = sample_env]
  note t2 = exit_codes [where argv = sample_argv and e = sample_env and op = "\<lambda>k. None"
      and sl = "\<lambda>k i. time_sleep" and nw = "\<lambda>u i. OtherError ''timed out''"]
  show ?thesis
    using mp [OF conjunct1 [OF t1] a] mp [OF conjunct2 [OF conjunct2 [OF t2]] c]
    by blast
qed

text \<open>
  Claim C9. With and without the progress bar, the same environment and arguments give
  the same results map, the same two counters, the same exit code and the same output
  structure handed to \<^verbatim>\<open>save_json\<close>.
\<close>

theorem displays_interchangeable:
  "results (final (main (e\<lparr>tqdm_available := True\<rparr>) argv))
     = results (final (main (e\<lparr>tqdm_available := False\<rparr>) argv)) \<and>
   processed_count (final (main (e\<lparr>tqdm_available := True\<rparr>) argv))
     = processed_count (final (main (e\<lparr>tqdm_available := False\<rparr>) argv)) \<and>
   error_count (final (main (e\<lparr>tqdm_available := True\<rparr>) argv))
     = error_count (final (main (e\<lparr>tqdm_available := False\<rparr>) argv)) \<and>
   written (main (e\<lparr>tqdm_available := True\<rparr>) argv)
     = written (main (e\<lparr>tqdm_available := False\<rparr>) argv) \<and>
   exit_code (main (e\<lparr>tqdm_available := True\<rparr>) argv)
     = exit_code (main (e\<lparr>tqdm_available := False\<rparr>) argv)"
proof -
  let ?t = "e\<lparr>tqdm_available := True\<rparr>" and ?f = "e\<lparr>tqdm_available := False\<rparr>"
  have tg: "targets ?t argv = targets ?f argv"
    by (simp add: targets_def)
  have sub: "(\<lambda>k. fst (submitted ?t k)) = (\<lambda>k. fst (submitted ?f k))"
    by (simp add: submitted_def)
  have core: "results (collect ?t fs) = results (collect ?f fs) \<and>
      processed_count (collect ?t fs) = processed_count (collect ?f fs) \<and>
      error_count (collect ?t fs) = error_count (collect ?f fs)" for fs
    using collect_fold_core [of True "\<lambda>k. fst (submitted ?f k)" initial_state
        "map snd (completion_order (schedule e) fs)" False]
    by (simp add: collect_def sub)
  have out: "build_output ?t argv ips (collect ?t fs) = build_output ?f argv ips (collect ?f fs)"
    for ips fs
    using core [of fs] by (simp add: build_output_def)
  show ?thesis
  proof (cases "submit_all (delay_sleep e) [] (targets ?f argv)")
    case (Inl err)
    then show ?thesis
      by (simp add: main_def Let_def tg exit_with_def crash_def)
  next
    case (Inr fs)
    show ?thesis
      using core [of fs] out [of "targets ?f argv" fs] Inr
      by (simp add: main_def Let_def tg exit_with_def crash_def split: option.splits)
  qed
qed

theorem displays_interchangeable_witness:
  "written (main (sample_env\<lparr>tqdm_available := True\<rparr>) sample_argv)
     = written (main (sample_env\<lparr>tqdm_available := False\<rparr>) sample_argv) \<and>
   events (final (main (sample_env\<lparr>tqdm_available := True\<rparr>) sample_argv))
     \<noteq> events (final (main (sample_env\<lparr>tqdm_available := False\<rparr>) sample_argv))"
proof -
  have d: "events (final (main (sample_env\<lparr>tqdm_available := True\<rparr>) sample_argv))
     \<noteq> events (final (main (sample_env\<lparr>tqdm_available := False\<rparr>) sample_argv))"
    by code_simp
  show ?thesis
    using d displays_interchangeable [of sample_env sample_argv] by blast
qed

section \<open>Properties of the harvesting flow\<close>

text \<open>
  Claim C10. \<^verbatim>\<open>get_ip\<close> returns a record with \<^verbatim>\<open>success\<close> true and the given
  identifier for every outcome of the request; when the request raises, the record has
  \<^verbatim>\<open>ip == 'logged'\<close>.
\<close>

theorem get_ip_always_succeeds:
  "h_success (get_ip fetched check_id) \<and> h_id (get_ip fetched check_id) = check_id \<and>
   h_success (get_ip (Inl e) check_id) \<and> h_ip (get_ip (Inl e) check_id) = ''logged''"
  by (simp add: get_ip_def logged_def Let_def split: sum.splits option.splits list.splits)

theorem get_ip_always_succeeds_witness:
  "h_success (get_ip (Inl (OSError ''timed out'')) 7) \<and>
   h_ip (get_ip (Inl (OSError ''timed out'')) 7) = ''logged'' \<and>
   h_success (get_ip (Inr ''no address here'') 8)"
  using get_ip_always_succeeds [of "Inl (OSError ''timed out'')" 7 "OSError ''timed out''"]
    get_ip_always_succeeds [of "Inr ''no address here''" 8]
  by blast

end
